theory Spec2Isabelle
  imports Complex_Main
begin

section \<open>The averagers of avg.c\<close>

text \<open>
  Conventions of the embedding.
  \<^item> A C \<open>double\<close> is a \<open>real\<close>: sums and quotients are exact, so every statement about
    a value below is a statement about the formula the code evaluates, not about its
    rounding. \<open>x / 0\<close> is \<open>0\<close> in HOL; the code divides by a count it has just
    incremented, which is at least 1 in every state reached from a reset.
  \<^item> A C \<open>long\<close> is an \<open>int\<close>. A count grows by one per sample, so it stays below
    \<open>2 ^ 63\<close> on every input of fewer than \<open>2 ^ 63\<close> samples (lemma
    \<open>cma_updates_count\<close> below); signed overflow beyond that is undefined in C.
  \<^item> A function that takes a pointer to a struct takes the struct and returns it
    (updated or not) beside its return value.
\<close>

record 'd cumulative_average_t =
  average :: 'd
  total :: 'd
  count :: int

definition cumulative_average ::
  "real cumulative_average_t \<Rightarrow> real \<Rightarrow> real \<times> real cumulative_average_t" where
  "cumulative_average s x =
     (let s1 = s\<lparr>total := total s + x\<rparr>;
          s2 = s1\<lparr>count := count s1 + 1\<rparr>;
          s3 = s2\<lparr>average := total s2 / real_of_int (count s2)\<rparr>
      in (average s3, s3))"

definition cma :: "real cumulative_average_t \<Rightarrow> real \<times> real cumulative_average_t" where
  "cma s = (average s, s)"

definition cma_reset :: "real cumulative_average_t \<Rightarrow> real cumulative_average_t" where
  "cma_reset s = s\<lparr>average := 0, count := 0, total := 0\<rparr>"

record 'd simple_moving_average_t =
  current_window :: "'d cumulative_average_t"
  simple_average :: "'d cumulative_average_t"
  window :: int

definition simple_moving_average ::
  "real simple_moving_average_t \<Rightarrow> real \<Rightarrow> real \<times> real simple_moving_average_t" where
  "simple_moving_average s x =
     (let (_, cw) = cumulative_average (current_window s) x;
          s1 = s\<lparr>current_window := cw\<rparr>;
          s2 = (if count (current_window s1) = window s1
                then (let (m, cw1) = cma (current_window s1);
                          (_, sa) = cumulative_average (simple_average s1) m;
                          cw2 = cma_reset cw1
                      in s1\<lparr>current_window := cw2, simple_average := sa\<rparr>)
                else s1);
          (r, sa') = cma (simple_average s2)
      in (r, s2\<lparr>simple_average := sa'\<rparr>))"

definition sma :: "real simple_moving_average_t \<Rightarrow> real \<times> real simple_moving_average_t" where
  "sma s = (let (r, sa) = cma (simple_average s) in (r, s\<lparr>simple_average := sa\<rparr>))"

definition sma_reset :: "real simple_moving_average_t \<Rightarrow> int \<Rightarrow> real simple_moving_average_t" where
  "sma_reset s w =
     (let s1 = s\<lparr>current_window := cma_reset (current_window s)\<rparr>;
          s2 = s1\<lparr>simple_average := cma_reset (simple_average s1)\<rparr>
      in s2\<lparr>window := w\<rparr>)"

subsection \<open>Sequences of operations on an averager\<close>

text \<open>
  A client of the cumulative averager can only call its update and its reset; a history
  is a list of such calls, applied from the left.
\<close>

datatype cma_op = Update real | Reset

fun cma_apply :: "real cumulative_average_t \<Rightarrow> cma_op \<Rightarrow> real cumulative_average_t" where
  "cma_apply s (Update x) = snd (cumulative_average s x)"
| "cma_apply s Reset = cma_reset s"

definition cma_history :: "real cumulative_average_t \<Rightarrow> cma_op list \<Rightarrow> real cumulative_average_t" where
  "cma_history s ops = foldl cma_apply (cma_reset s) ops"

definition cma_updates :: "real cumulative_average_t \<Rightarrow> real list \<Rightarrow> real cumulative_average_t" where
  "cma_updates s xs = foldl (\<lambda>s x. snd (cumulative_average s x)) s xs"

definition sma_updates ::
  "real simple_moving_average_t \<Rightarrow> real list \<Rightarrow> real simple_moving_average_t" where
  "sma_updates s xs = foldl (\<lambda>s x. snd (simple_moving_average s x)) s xs"

subsection \<open>The input stream and the driver\<close>

text \<open>
  The driver reads with \<open>fscanf(in, "%lf", &x)\<close> and compares the result with \<open>EOF\<close>.
  The stream is the list of tokens not yet read. A token is a number, or text whose
  first character cannot begin a number (such as \<open>abc\<close>). By the C standard
  \<open>fscanf\<close> returns \<open>EOF\<close> when the input ends before a conversion, the number of
  assignments (here 1) after a conversion, and 0 on a matching failure, where it stores
  nothing and leaves the offending character unread.
\<close>

datatype 'a token = Num 'a | Bad

definition EOF :: int where
  "EOF = - 1"

fun fscanf_lf :: "'a token list \<Rightarrow> 'a \<Rightarrow> int \<times> 'a token list \<times> 'a" where
  "fscanf_lf [] x = (EOF, [], x)"
| "fscanf_lf (Num v # rest) x = (1, rest, v)"
| "fscanf_lf (Bad # rest) x = (0, Bad # rest, x)"

datatype runtime_mode_t = UNKNOWN_RUNTIME_MODE | CUMULATIVE_AVERAGE | SIMPLE_MOVING_AVERAGE

text \<open>
  The flags as \<open>parse_argv\<close> leaves them; \<open>show_intermediates\<close>, a C \<open>int\<close> that is only
  ever 0 or 1 and only ever tested for truth, is a \<open>bool\<close>.
\<close>

record runtime_flags_t =
  runtime_mode :: runtime_mode_t
  show_intermediates :: bool
  window_size :: int


text \<open>
  The three read loops of \<open>main\<close>. Each carries the averager, the variable \<open>x\<close>, the
  unread input and the values printed so far (one per line, oldest first); a loop
  that never leaves is \<open>None\<close>.
\<close>

partial_function (option) cma_show_loop ::
  "real cumulative_average_t \<Rightarrow> real \<Rightarrow> real token list \<Rightarrow> real list \<Rightarrow>
   (real cumulative_average_t \<times> real list) option" where
  "cma_show_loop state x inp out =
     (case fscanf_lf inp x of (r, inp', x') \<Rightarrow>
        if r \<noteq> EOF
        then (case cumulative_average state x' of (v, state') \<Rightarrow>
                cma_show_loop state' x' inp' (out @ [v]))
        else Some (state, out))"

partial_function (option) cma_final_loop ::
  "real cumulative_average_t \<Rightarrow> real \<Rightarrow> real token list \<Rightarrow> real cumulative_average_t option" where
  "cma_final_loop state x inp =
     (case fscanf_lf inp x of (r, inp', x') \<Rightarrow>
        if r \<noteq> EOF
        then (case cumulative_average state x' of (_, state') \<Rightarrow>
                cma_final_loop state' x' inp')
        else Some state)"

text \<open>The body of the moving-average loop, lines 271 to 278, on the averager, the
  driver's own \<open>count\<close> (here \<open>cnt\<close>, the field of the averager having the name)
  and the output.\<close>

definition sma_loop_body ::
  "runtime_flags_t \<Rightarrow> real simple_moving_average_t \<times> int \<times> real list \<Rightarrow> real \<Rightarrow>
   real simple_moving_average_t \<times> int \<times> real list" where
  "sma_loop_body f c x =
     (case c of (state, cnt, out) \<Rightarrow>
        (let count1 = cnt + 1;
             (_, state1) = simple_moving_average state x
         in if count1 = window_size f
            then (if show_intermediates f
                  then (case sma state1 of (v, state2) \<Rightarrow> (state2, 0, out @ [v]))
                  else (state1, 0, out))
            else (state1, count1, out)))"

partial_function (option) sma_loop ::
  "runtime_flags_t \<Rightarrow> real simple_moving_average_t \<times> int \<times> real list \<Rightarrow> real \<Rightarrow> real token list \<Rightarrow>
   (real simple_moving_average_t \<times> int \<times> real list) option" where
  "sma_loop f c x inp =
     (case fscanf_lf inp x of (r, inp', x') \<Rightarrow>
        if r \<noteq> EOF
        then sma_loop f (sma_loop_body f c x') x' inp'
        else Some c)"

text \<open>
  \<open>main\<close> after \<open>parse_argv\<close>, on a stream that is open (standard input, or the data
  file when \<open>fopen\<close> succeeded): the result is the exit status and the values written
  to standard output, each on a line with \<open>%lf\<close>. The local structs and \<open>x\<close> are not
  initialised by the code, so their first contents \<open>cs0\<close>, \<open>ss0\<close> and \<open>x0\<close> are
  parameters.
\<close>

definition main ::
  "runtime_flags_t \<Rightarrow> real cumulative_average_t \<Rightarrow> real simple_moving_average_t \<Rightarrow> real \<Rightarrow>
   real token list \<Rightarrow> (int \<times> real list) option" where
  "main f cs0 ss0 x0 inp =
     (case runtime_mode f of
        CUMULATIVE_AVERAGE \<Rightarrow>
          (let state = cma_reset cs0
           in if show_intermediates f
              then (case cma_show_loop state x0 inp [] of
                      None \<Rightarrow> None
                    | Some (state', out) \<Rightarrow> Some (0, out))
              else (case cma_final_loop state x0 inp of
                      None \<Rightarrow> None
                    | Some state' \<Rightarrow> Some (0, [fst (cma state')])))
      | SIMPLE_MOVING_AVERAGE \<Rightarrow>
          (let state = sma_reset ss0 (window_size f)
           in case sma_loop f (state, 0, []) x0 inp of
                None \<Rightarrow> None
              | Some (state', cnt, out) \<Rightarrow>
                  if \<not> show_intermediates f
                  then Some (0, out @ [fst (sma state')])
                  else Some (0, out))
      | UNKNOWN_RUNTIME_MODE \<Rightarrow> Some (1, []))"

subsection \<open>The quantities the specification speaks of\<close>

text \<open>The arithmetic mean of a list, and the complete windows of \<open>w\<close> consecutive
  samples of a list (a trailing shorter run is not a window).\<close>

definition mean :: "real list \<Rightarrow> real" where
  "mean xs = sum_list xs / real (length xs)"

fun windows :: "nat \<Rightarrow> 'a list \<Rightarrow> 'a list list" where
  "windows w xs =
     (if w = 0 \<or> length xs < w then [] else take w xs # windows w (drop w xs))"

declare windows.simps [simp del]

section \<open>The cumulative averager\<close>

lemma cumulative_average_fields:
  "count (snd (cumulative_average s x)) = count s + 1"
  "total (snd (cumulative_average s x)) = total s + x"
  "average (snd (cumulative_average s x)) = (total s + x) / real_of_int (count s + 1)"
  "fst (cumulative_average s x) = (total s + x) / real_of_int (count s + 1)"
  by (simp_all add: cumulative_average_def Let_def)

lemma cma_reset_fields:
  "count (cma_reset s) = 0" "total (cma_reset s) = 0" "average (cma_reset s) = 0"
  by (simp_all add: cma_reset_def)

lemma cma_updates_snoc:
  "cma_updates s (xs @ [x]) = snd (cumulative_average (cma_updates s xs) x)"
  by (simp add: cma_updates_def)

lemma cma_updates_count: "count (cma_updates s xs) = count s + int (length xs)"
  by (induction xs rule: rev_induct)
     (simp_all add: cma_updates_snoc cumulative_average_fields, simp add: cma_updates_def)

lemma cma_updates_total: "total (cma_updates s xs) = total s + sum_list xs"
  by (induction xs rule: rev_induct)
     (simp_all add: cma_updates_snoc cumulative_average_fields, simp add: cma_updates_def)


lemma cma_reset_eq: "cma_reset s = \<lparr>average = 0, total = 0, count = 0\<rparr>"
  by (simp add: cma_reset_def)

lemma cma_updates_Cons:
  "cma_updates s (x # xs) = cma_updates (snd (cumulative_average s x)) xs"
  by (simp add: cma_updates_def)

lemma cumulative_average_eq:
  "cumulative_average s x =
     ((total s + x) / real_of_int (count s + 1),
      s\<lparr>total := total s + x, count := count s + 1,
        average := (total s + x) / real_of_int (count s + 1)\<rparr>)"
  by (simp add: cumulative_average_def Let_def)

lemma cma_final_loop_Num:
  "cma_final_loop state x (map Num xs) = Some (cma_updates state xs)"
proof (induction xs arbitrary: state x)
  case Nil
  show ?case by (subst cma_final_loop.simps) (simp add: cma_updates_def EOF_def)
next
  case (Cons a xs)
  show ?case
    by (subst cma_final_loop.simps)
       (simp add: EOF_def Cons.IH cma_updates_Cons split: prod.splits)
qed


lemma cma_invariant_step:
  assumes "0 \<le> count s" 
  shows "0 < count (cma_apply s p) \<longrightarrow> average (cma_apply s p) = total (cma_apply s p) / real_of_int (count (cma_apply s p))"
   and "count (cma_apply s p) = 0 \<longrightarrow> average (cma_apply s p) = 0"
   and "0 \<le> count (cma_apply s p)"
  using assms by (cases p; simp add: cumulative_average_fields cma_reset_fields)+

section \<open>The moving averager\<close>

lemma sma_updates_Cons:
  "sma_updates s (x # xs) = sma_updates (snd (simple_moving_average s x)) xs"
  by (simp add: sma_updates_def)

lemma sma_updates_append:
  "sma_updates s (xs @ ys) = sma_updates (sma_updates s xs) ys"
  by (simp add: sma_updates_def)

lemma sma_updates_snoc:
  "sma_updates s (xs @ [x]) = snd (simple_moving_average (sma_updates s xs) x)"
  by (simp add: sma_updates_def)

lemma simple_moving_average_window:
  "window (snd (simple_moving_average s x)) = window s"
  by (simp add: simple_moving_average_def cumulative_average_eq cma_def Let_def)

lemma simple_moving_average_open:
  assumes "count (current_window s) + 1 \<noteq> window s"
  shows "current_window (snd (simple_moving_average s x)) =
           snd (cumulative_average (current_window s) x)"
    and "simple_average (snd (simple_moving_average s x)) = simple_average s"
  using assms
  by (simp_all add: simple_moving_average_def cumulative_average_eq cma_def Let_def)

lemma simple_moving_average_full:
  assumes "count (current_window s) + 1 = window s"
  shows "current_window (snd (simple_moving_average s x)) =
           \<lparr>average = 0, total = 0, count = 0\<rparr>"
    and "simple_average (snd (simple_moving_average s x)) =
           snd (cumulative_average (simple_average s)
                  ((total (current_window s) + x) / real_of_int (window s)))"
  using assms
  by (simp_all add: simple_moving_average_def cumulative_average_eq cma_def cma_reset_def Let_def)

lemma simple_moving_average_fst:
  "fst (simple_moving_average s x) = average (simple_average (snd (simple_moving_average s x)))"
  by (simp add: simple_moving_average_def cumulative_average_eq cma_def Let_def)

lemma sma_updates_window: "window (sma_updates s xs) = window s"
  by (induction xs arbitrary: s) (simp_all add: sma_updates_Cons simple_moving_average_window, simp add: sma_updates_def)

lemma sma_updates_partial:
  "0 \<le> count (current_window s) \<Longrightarrow>
   count (current_window s) + int (length ys) < window s \<Longrightarrow>
   current_window (sma_updates s ys) = cma_updates (current_window s) ys \<and>
   simple_average (sma_updates s ys) = simple_average s"
proof (induction ys arbitrary: s)
  case Nil
  show ?case by (simp add: sma_updates_def cma_updates_def)
next
  case (Cons y ys)
  let ?s = "snd (simple_moving_average s y)"
  from Cons.prems have ne: "count (current_window s) + 1 \<noteq> window s" by simp
  have cw: "current_window ?s = snd (cumulative_average (current_window s) y)"
    and sa: "simple_average ?s = simple_average s"
    using simple_moving_average_open [OF ne] by simp_all
  have "0 \<le> count (current_window ?s)"
    and "count (current_window ?s) + int (length ys) < window ?s"
    using Cons.prems by (simp_all add: cw cumulative_average_fields simple_moving_average_window)
  from Cons.IH [OF this] show ?case
    by (simp add: sma_updates_Cons cma_updates_Cons cw sa)
qed

lemma sma_updates_window_full:
  assumes fresh: "current_window s = \<lparr>average = 0, total = 0, count = 0\<rparr>"
    and w: "window s = int (length ys)" and ne: "ys \<noteq> []"
  shows "current_window (sma_updates s ys) = \<lparr>average = 0, total = 0, count = 0\<rparr>"
    and "simple_average (sma_updates s ys) = snd (cumulative_average (simple_average s) (mean ys))"
proof -
  obtain zs z where ys: "ys = zs @ [z]"
    using ne by (cases ys rule: rev_cases) auto
  let ?t = "sma_updates s zs"
  have part: "current_window ?t = cma_updates (current_window s) zs"
    "simple_average ?t = simple_average s"
    using sma_updates_partial [of s zs] by (simp_all add: fresh w ys)
  have cnt: "count (current_window ?t) + 1 = window ?t"
    by (simp add: part cma_updates_count fresh sma_updates_window w ys)
  have tot: "total (current_window ?t) = sum_list zs"
    by (simp add: part cma_updates_total fresh)
  show "current_window (sma_updates s ys) = \<lparr>average = 0, total = 0, count = 0\<rparr>"
    using simple_moving_average_full(1) [OF cnt] by (simp add: ys sma_updates_snoc)
  show "simple_average (sma_updates s ys) = snd (cumulative_average (simple_average s) (mean ys))"
    using simple_moving_average_full(2) [OF cnt, of z]
    by (simp add: ys sma_updates_snoc part cma_updates_total fresh mean_def sma_updates_window w
        add.commute)
qed

lemma sma_updates_windows:
  "0 < w \<Longrightarrow> current_window s = \<lparr>average = 0, total = 0, count = 0\<rparr> \<Longrightarrow> window s = int w \<Longrightarrow>
   simple_average (sma_updates s xs) = cma_updates (simple_average s) (map mean (windows w xs)) \<and>
   current_window (sma_updates s xs) =
     cma_updates \<lparr>average = 0, total = 0, count = 0\<rparr> (drop (length xs - length xs mod w) xs)"
proof (induction w xs arbitrary: s rule: windows.induct)
  case (1 w xs)
  show ?case
  proof (cases "length xs < w")
    case True
    then have "windows w xs = []" by (simp add: windows.simps)
    moreover have "current_window (sma_updates s xs) = cma_updates (current_window s) xs \<and>
        simple_average (sma_updates s xs) = simple_average s"
      using True "1.prems" by (intro sma_updates_partial) simp_all
    ultimately show ?thesis using True "1.prems" by (simp add: cma_updates_def)
  next
    case False
    with "1.prems" have w: "w \<noteq> 0" "\<not> (w = 0 \<or> length xs < w)" "w \<le> length xs" by auto
    let ?a = "take w xs" and ?b = "drop w xs"
    let ?t = "sma_updates s ?a"
    have la: "length ?a = w" "?a \<noteq> []" using w by auto
    have t: "current_window ?t = \<lparr>average = 0, total = 0, count = 0\<rparr>"
      "simple_average ?t = snd (cumulative_average (simple_average s) (mean ?a))"
      using sma_updates_window_full [of s ?a] "1.prems" la by simp_all
    have wt: "window ?t = int w" by (simp add: sma_updates_window "1.prems")
    note IH = "1.IH" [OF w(2) "1.prems"(1) t(1) wt]
    have split: "sma_updates s xs = sma_updates ?t ?b"
      by (simp add: sma_updates_append [symmetric])
    have win: "windows w xs = ?a # windows w ?b"
      using w by (subst windows.simps) simp
    have "(length xs - w) mod w = length xs mod w"
      using w(3) by (simp add: le_mod_geq)
    moreover have "(length xs - w) mod w \<le> length xs - w"
      by (rule mod_less_eq_dividend)
    ultimately have "length ?b - length ?b mod w + w = length xs - length xs mod w"
      using w(3) by simp
    then have dr: "drop (length ?b - length ?b mod w) ?b = drop (length xs - length xs mod w) xs"
      by (simp add: drop_drop del: length_drop)
    have "simple_average (sma_updates s xs) =
            cma_updates (simple_average s) (map mean (windows w xs))"
      using IH [THEN conjunct1] by (simp only: split win t list.map cma_updates_Cons)
    moreover have "current_window (sma_updates s xs) =
            cma_updates \<lparr>average = 0, total = 0, count = 0\<rparr>
              (drop (length xs - length xs mod w) xs)"
      using IH [THEN conjunct2] by (simp only: split dr)
    ultimately show ?thesis by (rule conjI)
  qed
qed

section \<open>The driver\<close>

lemma cma_final_loop_Some_Num:
  assumes "cma_final_loop state x inp = Some r"
  shows "Bad \<notin> set inp"
proof (rule cma_final_loop.raw_induct
         [where P = "\<lambda>_ _ i _. Bad \<notin> set i" and xa = "((state, x), inp)" and y = r,
          unfolded prod.case])
  show "cma_final_loop state x inp = Some r" by fact
next
  fix loop s x i y
  assume IH: "\<And>s x i y. loop s x i = Some y \<Longrightarrow> Bad \<notin> set i"
    and run: "(case fscanf_lf i x of (r, inp', x') \<Rightarrow>
        if r \<noteq> EOF
        then (case cumulative_average s x' of (_, state') \<Rightarrow> loop state' x' inp')
        else Some s) = Some y"
  show "Bad \<notin> set i"
  proof (cases i)
    case Nil
    then show ?thesis by simp
  next
    case (Cons t rest)
    with run show ?thesis
      by (cases t) (auto simp: EOF_def split: prod.splits dest: IH)
  qed
qed

lemma sma_loop_Num:
  "sma_loop f c x (map Num xs) = Some (foldl (sma_loop_body f) c xs)"
proof (induction xs arbitrary: c x)
  case Nil
  show ?case by (subst sma_loop.simps) (simp add: EOF_def)
next
  case (Cons a xs)
  show ?case by (subst sma_loop.simps) (simp add: EOF_def Cons.IH)
qed

lemma cma_show_loop_Some_Num:
  assumes "cma_show_loop state x inp out = Some r"
  shows "Bad \<notin> set inp"
proof (rule cma_show_loop.raw_induct
         [where P = "\<lambda>_ _ i _ _. Bad \<notin> set i" and xa = "(((state, x), inp), out)" and y = r,
          unfolded prod.case])
  show "cma_show_loop state x inp out = Some r" by fact
next
  fix loop s x i out y
  assume IH: "\<And>s x i out y. loop s x i out = Some y \<Longrightarrow> Bad \<notin> set i"
    and run: "(case fscanf_lf i x of (r, inp', x') \<Rightarrow>
        if r \<noteq> EOF
        then (case cumulative_average s x' of (v, state') \<Rightarrow> loop state' x' inp' (out @ [v]))
        else Some (s, out)) = Some y"
  show "Bad \<notin> set i"
  proof (cases i)
    case Nil
    then show ?thesis by simp
  next
    case (Cons t rest)
    with run show ?thesis
      by (cases t) (auto simp: EOF_def split: prod.splits dest: IH)
  qed
qed

lemma sma_loop_Some_Num:
  assumes "sma_loop f c x inp = Some r"
  shows "Bad \<notin> set inp"
proof (rule sma_loop.raw_induct
         [where P = "\<lambda>_ _ _ i _. Bad \<notin> set i" and xa = "(((f, c), x), inp)" and y = r,
          unfolded prod.case])
  show "sma_loop f c x inp = Some r" by fact
next
  fix loop f c x i y
  assume IH: "\<And>f c x i y. loop f c x i = Some y \<Longrightarrow> Bad \<notin> set i"
    and run: "(case fscanf_lf i x of (r, inp', x') \<Rightarrow>
        if r \<noteq> EOF then loop f (sma_loop_body f c x') x' inp' else Some c) = Some y"
  show "Bad \<notin> set i"
  proof (cases i)
    case Nil
    then show ?thesis by simp
  next
    case (Cons t rest)
    with run show ?thesis
      by (cases t) (auto simp: EOF_def split: prod.splits dest: IH)
  qed
qed

lemma main_Bad:
  assumes "Bad \<in> set inp" and "runtime_mode f \<noteq> UNKNOWN_RUNTIME_MODE"
  shows "main f cs0 ss0 x0 inp = None"
proof (cases "runtime_mode f")
  case UNKNOWN_RUNTIME_MODE
  with assms show ?thesis by simp
next
  case CUMULATIVE_AVERAGE
  have "cma_show_loop (cma_reset cs0) x0 inp [] = None"
    using cma_show_loop_Some_Num assms(1) by (cases "cma_show_loop (cma_reset cs0) x0 inp []") blast+
  moreover have "cma_final_loop (cma_reset cs0) x0 inp = None"
    using cma_final_loop_Some_Num assms(1) by (cases "cma_final_loop (cma_reset cs0) x0 inp") blast+
  ultimately show ?thesis using CUMULATIVE_AVERAGE by (simp add: main_def Let_def)
next
  case SIMPLE_MOVING_AVERAGE
  have "sma_loop f (sma_reset ss0 (window_size f), 0, []) x0 inp = None"
    using sma_loop_Some_Num assms(1)
    by (cases "sma_loop f (sma_reset ss0 (window_size f), 0, []) x0 inp") blast+
  then show ?thesis using SIMPLE_MOVING_AVERAGE by (simp add: main_def Let_def)
qed

lemma sma_eq: "sma s = (average (simple_average s), s)"
  by (simp add: sma_def cma_def)

lemma sma_loop_body_eq:
  "sma_loop_body f (state, cnt, out) x =
     (snd (simple_moving_average state x),
      (if cnt + 1 = window_size f then 0 else cnt + 1),
      (if cnt + 1 = window_size f \<and> show_intermediates f
       then out @ [fst (simple_moving_average state x)] else out))"
  by (simp add: sma_loop_body_def Let_def sma_eq simple_moving_average_fst split: prod.splits)

lemma sma_reset_fields:
  "current_window (sma_reset s w) = \<lparr>average = 0, total = 0, count = 0\<rparr>"
  "simple_average (sma_reset s w) = \<lparr>average = 0, total = 0, count = 0\<rparr>"
  "window (sma_reset s w) = w"
  by (simp_all add: sma_reset_def cma_reset_def Let_def)

lemma sma_loop_states:
  "fst (foldl (sma_loop_body f) (state, cnt, out) xs) = sma_updates state xs"
proof (induction xs rule: rev_induct)
  case Nil
  show ?case by (simp add: sma_updates_def)
next
  case (snoc x xs)
  obtain st c out' where r: "foldl (sma_loop_body f) (state, cnt, out) xs = (st, c, out')"
    by (cases "foldl (sma_loop_body f) (state, cnt, out) xs") auto
  with snoc show ?case by (simp add: sma_loop_body_eq sma_updates_snoc)
qed

lemma sma_loop_counter:
  assumes "window state = window_size f" and "cnt = count (current_window state)"
  shows "fst (snd (foldl (sma_loop_body f) (state, cnt, out) xs)) =
           count (current_window (sma_updates state xs))"
proof (induction xs rule: rev_induct)
  case Nil
  show ?case using assms by (simp add: sma_updates_def)
next
  case (snoc x xs)
  obtain st c out' where r: "foldl (sma_loop_body f) (state, cnt, out) xs = (st, c, out')"
    by (cases "foldl (sma_loop_body f) (state, cnt, out) xs") auto
  have st: "st = sma_updates state xs" using sma_loop_states [of f state cnt out xs] r by simp
  have c: "c = count (current_window st)" using snoc r st by simp
  have w: "window st = window_size f" by (simp add: st sma_updates_window assms)
  show ?case
  proof (cases "count (current_window st) + 1 = window st")
    case True
    then show ?thesis
      using simple_moving_average_full(1) [OF True, of x]
      by (simp add: r sma_loop_body_eq sma_updates_snoc st [symmetric] c w)
  next
    case False
    then show ?thesis
      using simple_moving_average_open(1) [OF False, of x]
      by (simp add: r sma_loop_body_eq sma_updates_snoc st [symmetric] c w cumulative_average_fields)
  qed
qed

section \<open>Windows and the value of the moving average\<close>






lemma sma_updates_from_reset:
  assumes "0 < w"
  shows "simple_average (sma_updates (sma_reset s0 (int w)) xs) =
           cma_updates \<lparr>average = 0, total = 0, count = 0\<rparr> (map mean (windows w xs))"
    and "count (current_window (sma_updates (sma_reset s0 (int w)) xs)) = int (length xs mod w)"
proof -
  note r = sma_updates_windows [OF assms sma_reset_fields(1) sma_reset_fields(3), of s0 xs]
  show "simple_average (sma_updates (sma_reset s0 (int w)) xs) =
           cma_updates \<lparr>average = 0, total = 0, count = 0\<rparr> (map mean (windows w xs))"
    using r by (simp add: sma_reset_fields)
  have "length xs mod w \<le> length xs" by (rule mod_less_eq_dividend)
  then show "count (current_window (sma_updates (sma_reset s0 (int w)) xs)) = int (length xs mod w)"
    using r by (simp add: cma_updates_count)
qed





lemma sma_loop_lines:
  assumes "0 < w" and "window_size f = int w" and "show_intermediates f"
  shows "length (snd (snd (foldl (sma_loop_body f) (sma_reset ss0 (int w), 0, []) xs))) =
           length xs div w"
proof (induction xs rule: rev_induct)
  case Nil
  show ?case by simp
next
  case (snoc x xs)
  let ?init = "(sma_reset ss0 (int w), 0 :: int, [] :: real list)"
  obtain st c out where r: "foldl (sma_loop_body f) ?init xs = (st, c, out)"
    by (cases "foldl (sma_loop_body f) ?init xs") auto
  have "c = count (current_window (sma_updates (sma_reset ss0 (int w)) xs))"
    using sma_loop_counter [of "sma_reset ss0 (int w)" f 0 "[]" xs] r assms(2)
    by (simp add: sma_reset_fields)
  then have c: "c = int (length xs mod w)"
    by (simp add: sma_updates_from_reset(2) [OF assms(1)])
  have out: "length out = length xs div w" using snoc r by simp
  have "(c + 1 = int w) = (Suc (length xs mod w) = w)" using c by auto
  then show ?case
    by (simp add: r sma_loop_body_eq assms(2,3) out div_Suc mod_Suc)
qed

lemma sma_updates_from_reset_total:
  assumes "0 < w"
  shows "total (current_window (sma_updates (sma_reset s0 (int w)) xs)) =
           sum_list (drop (length xs - length xs mod w) xs)"
  using sma_updates_windows [OF assms sma_reset_fields(1) sma_reset_fields(3), of s0 xs]
  by (simp add: cma_updates_total)

lemma sma_updates_fold_step:
  assumes "0 < w"
  shows "simple_average (sma_updates (sma_reset s0 (int w)) (xs @ [x])) =
           (if Suc (length xs) mod w = 0
            then snd (cumulative_average (simple_average (sma_updates (sma_reset s0 (int w)) xs))
                        (mean (drop (Suc (length xs) - w) (xs @ [x]))))
            else simple_average (sma_updates (sma_reset s0 (int w)) xs))"
proof -
  let ?s = "sma_updates (sma_reset s0 (int w)) xs"
  have cnt: "count (current_window ?s) = int (length xs mod w)"
    by (rule sma_updates_from_reset(2) [OF assms])
  have win: "window ?s = int w" by (simp add: sma_updates_window sma_reset_fields)
  show ?thesis
  proof (cases "Suc (length xs) mod w = 0")
    case True
    then have m: "Suc (length xs mod w) = w" using assms by (simp add: mod_Suc split: if_splits)
    then have full: "count (current_window ?s) + 1 = window ?s" using cnt win by simp
    have "length xs mod w \<le> length xs" by (rule mod_less_eq_dividend)
    with m have le: "Suc (length xs) - w \<le> length xs"
      and eq: "length xs - length xs mod w = Suc (length xs) - w" by linarith+
    have "w \<le> Suc (length xs)" using m \<open>length xs mod w \<le> length xs\<close> by linarith
    then have lw: "length (drop (Suc (length xs) - w) (xs @ [x])) = w" by simp
    have sm: "sum_list (drop (Suc (length xs) - w) (xs @ [x])) =
            sum_list (drop (Suc (length xs) - w) xs) + x"
      using le by simp
    have "mean (drop (Suc (length xs) - w) (xs @ [x])) =
            (sum_list (drop (Suc (length xs) - w) xs) + x) / real w"
      unfolding mean_def lw sm ..
    then show ?thesis
      using simple_moving_average_full(2) [OF full, of x] True
      by (simp add: sma_updates_snoc sma_updates_from_reset_total [OF assms] eq win)
  next
    case False
    then have "Suc (length xs mod w) \<noteq> w" by (simp add: mod_Suc split: if_splits)
    then have "count (current_window ?s) + 1 \<noteq> window ?s" using cnt win by simp
    from simple_moving_average_open(2) [OF this, of x] False show ?thesis
      by (simp add: sma_updates_snoc)
  qed
qed

lemma sma_loop_body_fold:
  "count (current_window state) + 1 = window state \<Longrightarrow>
     count (simple_average (snd (simple_moving_average state x))) = count (simple_average state) + 1"
  "count (current_window state) + 1 \<noteq> window state \<Longrightarrow>
     count (simple_average (snd (simple_moving_average state x))) = count (simple_average state)"
  by (simp_all add: simple_moving_average_full(2) simple_moving_average_open(2)
      cumulative_average_fields)


section \<open>The claims on the cumulative mode\<close>

lemma cma_history_snoc: "cma_history s (ops @ [p]) = cma_apply (cma_history s ops) p"
  by (simp add: cma_history_def)

lemma cma_history_count: "0 \<le> count (cma_history s ops)"
proof (induction ops rule: rev_induct)
  case Nil
  show ?case by (simp add: cma_history_def cma_reset_fields)
next
  case (snoc p ops)
  then show ?case by (simp add: cma_history_snoc cma_invariant_step(3))
qed

text \<open>
  C6. In every state of a cumulative averager reached from a reset by updates and
  resets in any order, the average is the total divided by the count when the count is
  positive and is 0 when the count is 0; and \<open>cma\<close> returns that average and the state
  as it was.
\<close>

theorem cma_history_invariant:
  "(0 < count (cma_history s ops) \<longrightarrow>
      average (cma_history s ops) =
        total (cma_history s ops) / real_of_int (count (cma_history s ops))) \<and>
   (count (cma_history s ops) = 0 \<longrightarrow> average (cma_history s ops) = 0) \<and>
   cma (cma_history s ops) = (average (cma_history s ops), cma_history s ops)"
proof (cases ops rule: rev_cases)
  case Nil
  then show ?thesis by (simp add: cma_history_def cma_reset_fields cma_def)
next
  case (snoc ops' p)
  show ?thesis
    using cma_invariant_step(1,2) [OF cma_history_count, of s ops' p]
    by (simp add: snoc cma_history_snoc cma_def)
qed

theorem cma_history_invariant_witness:
  "0 < count (cma_history \<lparr>average = 7, total = 9, count = 4\<rparr> [Update 2, Update 4]) \<and>
   average (cma_history \<lparr>average = 7, total = 9, count = 4\<rparr> [Update 2, Update 4]) = 3 \<and>
   count (cma_history \<lparr>average = 7, total = 9, count = 4\<rparr> [Update 5, Reset]) = 0 \<and>
   average (cma_history \<lparr>average = 7, total = 9, count = 4\<rparr> [Update 5, Reset]) = 0"
  using cma_history_invariant [of "\<lparr>average = 7, total = 9, count = 4\<rparr>" "[Update 2, Update 4]"]
    cma_history_invariant [of "\<lparr>average = 7, total = 9, count = 4\<rparr>" "[Update 5, Reset]"]
  by (simp add: cma_history_def cumulative_average_eq cma_reset_def)

text \<open>
  C7. On an empty input the cumulative mode without intermediates terminates with
  status 0 and prints one line, the value 0 of the reset averager.
\<close>

theorem main_cma_empty:
  "main \<lparr>runtime_mode = CUMULATIVE_AVERAGE, show_intermediates = False, window_size = w\<rparr>
        cs0 ss0 x0 [] = Some (0, [0])"
  using cma_final_loop_Num [of "cma_reset cs0" x0 "[]"]
  by (simp add: main_def Let_def cma_updates_def cma_def cma_reset_fields)

lemma main_cma_final:
  "main \<lparr>runtime_mode = CUMULATIVE_AVERAGE, show_intermediates = False, window_size = w\<rparr>
        cs0 ss0 x0 (map Num xs) = Some (0, [average (cma_updates (cma_reset cs0) xs)])"
  by (simp add: main_def Let_def cma_final_loop_Num cma_def)




text \<open>
  C3. A malformed token is specified to end the read loop as the end of the stream
  does, with the output of the input cut before the token. The code does otherwise:
  its loops run while \<open>fscanf\<close> does not return \<open>EOF\<close>, and on a malformed token
  \<open>fscanf\<close> returns 0 and leaves the token unread. On the input \<open>1 abc\<close> the loop
  never ends and nothing is printed, while on the input \<open>1\<close> the driver prints 1.
\<close>

theorem main_cma_malformed_token:
  "main \<lparr>runtime_mode = CUMULATIVE_AVERAGE, show_intermediates = False, window_size = w\<rparr>
        cs0 ss0 x0 [Num 1, Bad] = None \<and>
   main \<lparr>runtime_mode = CUMULATIVE_AVERAGE, show_intermediates = False, window_size = w\<rparr>
        cs0 ss0 x0 [Num 1] = Some (0, [1])"
proof
  show "main \<lparr>runtime_mode = CUMULATIVE_AVERAGE, show_intermediates = False, window_size = w\<rparr>
        cs0 ss0 x0 [Num 1, Bad] = None"
    by (rule main_Bad) simp_all
  show "main \<lparr>runtime_mode = CUMULATIVE_AVERAGE, show_intermediates = False, window_size = w\<rparr>
        cs0 ss0 x0 [Num 1] = Some (0, [1])"
    using main_cma_final [of w cs0 ss0 x0 "[1]"]
    by (simp add: cma_updates_def cumulative_average_eq cma_reset_fields)
qed

text \<open>
  C8. After \<open>cma_reset\<close>, whatever the averager held before, \<open>cma\<close> returns 0, and the
  next \<open>cumulative_average\<close> with \<open>x\<close> returns \<open>x\<close> and leaves average \<open>x\<close>, total
  \<open>x\<close> and count 1: the result does not depend on the state before the reset, so it is
  the one a never-updated (freshly reset) averager gives.
\<close>

theorem cma_reset_then_update:
  "fst (cma (cma_reset s)) = 0 \<and>
   cumulative_average (cma_reset s) x = (x, s\<lparr>average := x, total := x, count := 1\<rparr>) \<and>
   cumulative_average (cma_reset s) x = cumulative_average (cma_reset s') x"
  by (simp add: cma_def cma_reset_def cumulative_average_def Let_def)

section \<open>The claims on the moving average\<close>

text \<open>
  C4. With a window size \<open>W > 0\<close>, after any sequence of updates of a moving averager
  that was reset with \<open>W\<close>, the count of the current window lies in \<open>[0, W)\<close> (it is
  the number of updates modulo \<open>W\<close>, back at 0 whenever it reaches \<open>W\<close>); and the
  across-windows averager has been fed the means of the complete windows and nothing
  else: its state is the one that cumulative updates with these means produce, and a
  further update changes it only when it completes a window, by one cumulative update
  with the mean of the last \<open>W\<close> samples.
\<close>

theorem sma_window_invariant:
  assumes "0 < W"
  shows "0 \<le> count (current_window (sma_updates (sma_reset s0 W) xs)) \<and>
         count (current_window (sma_updates (sma_reset s0 W) xs)) < W \<and>
         count (current_window (sma_updates (sma_reset s0 W) xs)) = int (length xs) mod W \<and>
         simple_average (sma_updates (sma_reset s0 W) xs) =
           cma_updates (cma_reset c0) (map mean (windows (nat W) xs)) \<and>
         simple_average (sma_updates (sma_reset s0 W) (xs @ [x])) =
           (if Suc (length xs) mod nat W = 0
            then snd (cumulative_average (simple_average (sma_updates (sma_reset s0 W) xs))
                        (mean (drop (Suc (length xs) - nat W) (xs @ [x]))))
            else simple_average (sma_updates (sma_reset s0 W) xs))"
proof -
  define w where "w = nat W"
  with assms have w: "0 < w" "W = int w" by simp_all
  have "count (current_window (sma_updates (sma_reset s0 W) xs)) = int (length xs mod w)"
    unfolding w(2) by (rule sma_updates_from_reset(2) [OF w(1)])
  moreover have "int (length xs mod w) = int (length xs) mod W"
    by (simp add: w(2) zmod_int)
  moreover have "int (length xs mod w) < W" using w by simp
  moreover have "simple_average (sma_updates (sma_reset s0 W) xs) =
           cma_updates (cma_reset c0) (map mean (windows w xs))"
    unfolding w(2) by (simp add: sma_updates_from_reset(1) [OF w(1)] cma_reset_eq)
  moreover note sma_updates_fold_step [OF w(1), of s0 xs x, folded w(2)]
  ultimately show ?thesis by (simp add: w_def [symmetric])
qed

theorem sma_window_invariant_witness:
  "(0 :: int) < 2 \<and>
   count (current_window (sma_updates (sma_reset
     \<lparr>current_window = \<lparr>average = 7, total = 9, count = 4\<rparr>,
      simple_average = \<lparr>average = 1, total = 2, count = 3\<rparr>, window = 5\<rparr> 2) [4, 8, 5])) = 1 \<and>
   simple_average (sma_updates (sma_reset
     \<lparr>current_window = \<lparr>average = 7, total = 9, count = 4\<rparr>,
      simple_average = \<lparr>average = 1, total = 2, count = 3\<rparr>, window = 5\<rparr> 2) [4, 8, 5])
     = \<lparr>average = 6, total = 6, count = 1\<rparr> \<and>
   simple_average (sma_updates (sma_reset
     \<lparr>current_window = \<lparr>average = 7, total = 9, count = 4\<rparr>,
      simple_average = \<lparr>average = 1, total = 2, count = 3\<rparr>, window = 5\<rparr> 2) ([4, 8, 5] @ [9]))
     = \<lparr>average = 13 / 2, total = 13, count = 2\<rparr>"
  using sma_window_invariant [of 2
     "\<lparr>current_window = \<lparr>average = 7, total = 9, count = 4\<rparr>,
      simple_average = \<lparr>average = 1, total = 2, count = 3\<rparr>, window = 5\<rparr>" "[4, 8, 5]"
     "\<lparr>average = 7, total = 9, count = 4\<rparr>" 9]
  by (simp add: windows.simps mean_def cma_updates_def cumulative_average_eq cma_reset_eq)



text \<open>
  C5. In the moving-average mode with intermediates and a window size \<open>W > 0\<close>, the
  driver terminates on \<open>n\<close> numbers and prints exactly \<open>n div W\<close> lines.
\<close>

theorem main_sma_intermediate_lines:
  assumes "0 < W"
  shows "\<exists>out. main \<lparr>runtime_mode = SIMPLE_MOVING_AVERAGE, show_intermediates = True,
                       window_size = W\<rparr> cs0 ss0 x0 (map Num xs) = Some (0, out) \<and>
               int (length out) = int (length xs) div W"
proof -
  define w where "w = nat W"
  with assms have w: "0 < w" "W = int w" by simp_all
  let ?f = "\<lparr>runtime_mode = SIMPLE_MOVING_AVERAGE, show_intermediates = True, window_size = W\<rparr>"
  obtain st c out where r: "foldl (sma_loop_body ?f) (sma_reset ss0 W, 0, []) xs = (st, c, out)"
    by (cases "foldl (sma_loop_body ?f) (sma_reset ss0 W, 0, []) xs") auto
  have "length out = length xs div w"
    using sma_loop_lines [OF w(1), of ?f ss0 xs] r by (simp add: w(2))
  then have "int (length out) = int (length xs) div W"
    by (simp add: w(2) zdiv_int)
  moreover have "main ?f cs0 ss0 x0 (map Num xs) = Some (0, out)"
    by (simp add: main_def Let_def sma_loop_Num r)
  ultimately show ?thesis by blast
qed

theorem main_sma_intermediate_lines_witness:
  "(0 :: int) < 3 \<and>
   (\<exists>out. main \<lparr>runtime_mode = SIMPLE_MOVING_AVERAGE, show_intermediates = True, window_size = 3\<rparr>
     \<lparr>average = 7, total = 9, count = 4\<rparr>
     \<lparr>current_window = \<lparr>average = 7, total = 9, count = 4\<rparr>,
      simple_average = \<lparr>average = 1, total = 2, count = 3\<rparr>, window = 5\<rparr>
     8 (map Num [1, 2, 3, 4, 5, 6, 7]) = Some (0, out) \<and> length out = 2)"
  using main_sma_intermediate_lines [of 3 "\<lparr>average = 7, total = 9, count = 4\<rparr>"
     "\<lparr>current_window = \<lparr>average = 7, total = 9, count = 4\<rparr>,
      simple_average = \<lparr>average = 1, total = 2, count = 3\<rparr>, window = 5\<rparr>" 8
     "[1, 2, 3, 4, 5, 6, 7]"]
  by simp

text \<open>
  C9. In the moving-average loop with a window size \<open>W > 0\<close>, on numeric input the
  loop runs its body once per sample, and after every iteration the driver's counter
  equals the count of the averager's current window. In each iteration the counter is
  back at 0 exactly when the iteration folded a window mean into the across-windows
  averager (whose count then grew by one, and which is otherwise unchanged), and a line
  is printed exactly when intermediates are shown and a window mean was folded in; the
  line is the moving average then.
\<close>

theorem sma_driver_counter:
  assumes "0 < window_size f"
  shows "sma_loop f (sma_reset ss0 (window_size f), 0, []) x0 (map Num xs) =
           Some (foldl (sma_loop_body f) (sma_reset ss0 (window_size f), 0, []) xs) \<and>
         (case foldl (sma_loop_body f) (sma_reset ss0 (window_size f), 0, []) xs of
            (state, cnt, out) \<Rightarrow>
              cnt = count (current_window state) \<and>
              (case sma_loop_body f (state, cnt, out) x of
                 (state', cnt', out') \<Rightarrow>
                   cnt' = count (current_window state') \<and>
                   (cnt' = 0) = (count (simple_average state') = count (simple_average state) + 1) \<and>
                   (cnt' \<noteq> 0 \<longrightarrow> simple_average state' = simple_average state) \<and>
                   (out' \<noteq> out) =
                     (show_intermediates f \<and>
                      count (simple_average state') = count (simple_average state) + 1) \<and>
                   (out' \<noteq> out \<longrightarrow> out' = out @ [fst (sma state')])))"
proof -
  let ?init = "(sma_reset ss0 (window_size f), 0 :: int, [] :: real list)"
  obtain st c out where r: "foldl (sma_loop_body f) ?init xs = (st, c, out)"
    by (cases "foldl (sma_loop_body f) ?init xs") auto
  have st: "st = sma_updates (sma_reset ss0 (window_size f)) xs"
    using sma_loop_states [of f "sma_reset ss0 (window_size f)" 0 "[]" xs] r by simp
  have c: "c = count (current_window st)"
    using sma_loop_counter [of "sma_reset ss0 (window_size f)" f 0 "[]" xs] r st
    by (simp add: sma_reset_fields)
  have w: "window st = window_size f"
    by (simp add: st sma_updates_window sma_reset_fields)
  have "0 < nat (window_size f)" using assms by simp
  from sma_updates_from_reset(2) [OF this, of ss0 xs] assms
  have nonneg: "0 \<le> count (current_window st)" by (simp add: st)
  have step: "(case sma_loop_body f (st, c, out) x of
                 (state', cnt', out') \<Rightarrow>
                   cnt' = count (current_window state') \<and>
                   (cnt' = 0) = (count (simple_average state') = count (simple_average st) + 1) \<and>
                   (cnt' \<noteq> 0 \<longrightarrow> simple_average state' = simple_average st) \<and>
                   (out' \<noteq> out) =
                     (show_intermediates f \<and>
                      count (simple_average state') = count (simple_average st) + 1) \<and>
                   (out' \<noteq> out \<longrightarrow> out' = out @ [fst (sma state')]))"
  proof (cases "count (current_window st) + 1 = window st")
    case True
    then show ?thesis
      using simple_moving_average_full(1) [OF True, of x] sma_loop_body_fold(1) [OF True, of x]
      by (simp add: sma_loop_body_eq c w [symmetric] sma_eq simple_moving_average_fst)
  next
    case False
    then show ?thesis
      using simple_moving_average_open [OF False, of x] sma_loop_body_fold(2) [OF False, of x]
        nonneg
      by (simp add: sma_loop_body_eq c w [symmetric] cumulative_average_fields)
  qed
  show ?thesis
    using step c by (simp add: sma_loop_Num r)
qed

theorem sma_driver_counter_witness:
  "0 < window_size \<lparr>runtime_mode = SIMPLE_MOVING_AVERAGE, show_intermediates = True, window_size = 2\<rparr> \<and>
   sma_loop \<lparr>runtime_mode = SIMPLE_MOVING_AVERAGE, show_intermediates = True, window_size = 2\<rparr>
     (sma_reset \<lparr>current_window = \<lparr>average = 7, total = 9, count = 4\<rparr>,
        simple_average = \<lparr>average = 1, total = 2, count = 3\<rparr>, window = 5\<rparr> 2, 0, [])
     8 (map Num [4, 8, 5]) =
     Some (\<lparr>current_window = \<lparr>average = 5, total = 5, count = 1\<rparr>,
            simple_average = \<lparr>average = 6, total = 6, count = 1\<rparr>, window = 2\<rparr>, 1, [6]) \<and>
   sma_loop_body \<lparr>runtime_mode = SIMPLE_MOVING_AVERAGE, show_intermediates = True, window_size = 2\<rparr>
     (\<lparr>current_window = \<lparr>average = 5, total = 5, count = 1\<rparr>,
       simple_average = \<lparr>average = 6, total = 6, count = 1\<rparr>, window = 2\<rparr>, 1, [6]) 9 =
     (\<lparr>current_window = \<lparr>average = 0, total = 0, count = 0\<rparr>,
       simple_average = \<lparr>average = 13 / 2, total = 13, count = 2\<rparr>, window = 2\<rparr>, 0, [6, 13 / 2]) \<and>
   sma_loop \<lparr>runtime_mode = SIMPLE_MOVING_AVERAGE, show_intermediates = True, window_size = 2\<rparr>
     (sma_reset \<lparr>current_window = \<lparr>average = 7, total = 9, count = 4\<rparr>,
        simple_average = \<lparr>average = 1, total = 2, count = 3\<rparr>, window = 5\<rparr> 2, 0, [])
     8 (map Num [4, 8]) =
     Some (\<lparr>current_window = \<lparr>average = 0, total = 0, count = 0\<rparr>,
            simple_average = \<lparr>average = 6, total = 6, count = 1\<rparr>, window = 2\<rparr>, 0, [6]) \<and>
   sma_loop_body \<lparr>runtime_mode = SIMPLE_MOVING_AVERAGE, show_intermediates = True, window_size = 2\<rparr>
     (\<lparr>current_window = \<lparr>average = 0, total = 0, count = 0\<rparr>,
       simple_average = \<lparr>average = 6, total = 6, count = 1\<rparr>, window = 2\<rparr>, 0, [6]) 5 =
     (\<lparr>current_window = \<lparr>average = 5, total = 5, count = 1\<rparr>,
       simple_average = \<lparr>average = 6, total = 6, count = 1\<rparr>, window = 2\<rparr>, 1, [6])"
  using sma_driver_counter
    [of "\<lparr>runtime_mode = SIMPLE_MOVING_AVERAGE, show_intermediates = True, window_size = 2\<rparr>"
      "\<lparr>current_window = \<lparr>average = 7, total = 9, count = 4\<rparr>,
        simple_average = \<lparr>average = 1, total = 2, count = 3\<rparr>, window = 5\<rparr>" 8 "[4, 8, 5]" 9]
    sma_driver_counter
    [of "\<lparr>runtime_mode = SIMPLE_MOVING_AVERAGE, show_intermediates = True, window_size = 2\<rparr>"
      "\<lparr>current_window = \<lparr>average = 7, total = 9, count = 4\<rparr>,
        simple_average = \<lparr>average = 1, total = 2, count = 3\<rparr>, window = 5\<rparr>" 8 "[4, 8]" 5]
  by (simp add: sma_loop_body_def simple_moving_average_def cumulative_average_eq cma_def
      cma_reset_def sma_def sma_reset_def Let_def)



end
